theory Spec2Isabelle
  imports Main "HOL-Library.Sublist" "HOL-Library.Multiset"
begin

section \<open>The commit tool of the MCP server (packages/mcp/src/tools/client/commit.ts)\<close>

subsection \<open>Data\<close>

text \<open>
  Every failure of \<^verbatim>\<open>commit\<close> is a JavaScript \<^verbatim>\<open>throw new Error(message)\<close>. The
  source has a single error class; what tells two failures apart is the message.
\<close>

datatype error = Error string

text \<open>
  The stack and branch types come from \<^verbatim>\<open>status.js\<close>. Of an element of \<^verbatim>\<open>stack.heads\<close>
  the function reads \<^verbatim>\<open>name\<close> only; of an element of the list that
  \<^verbatim>\<open>listStackBranches\<close> returns it reads \<^verbatim>\<open>name\<close> and \<^verbatim>\<open>archived\<close>; of a stack it
  reads \<^verbatim>\<open>id\<close> and \<^verbatim>\<open>heads\<close>. The field \<^verbatim>\<open>id\<close> is written \<open>id'\<close> here.
\<close>

record BranchHead =
  name :: string

record StackBranch = BranchHead +
  archived :: bool

record Stack =
  id' :: string
  heads :: "BranchHead list"

text \<open>\<^verbatim>\<open>CommitParams\<close>, after the schema has filled in the defaults of \<^verbatim>\<open>all\<close> and \<^verbatim>\<open>filePaths\<close>.\<close>

record CommitParams =
  project_directory :: string
  message :: string
  all :: bool
  filePaths :: "string list"
  branch :: string

text \<open>
  The three functions that reach the GitButler executable are imported, so they are
  parameters of the model. Each may throw, and \<^verbatim>\<open>commit\<close> catches nothing: the exception
  leaves \<^verbatim>\<open>commit\<close> unchanged. The calls made are recorded in order.
\<close>

record 'r Backend =
  listStacks :: "string \<Rightarrow> error + Stack list"
  listStackBranches :: "string \<Rightarrow> string \<Rightarrow> error + StackBranch list"
  executeGitButlerCommand :: "string \<Rightarrow> string list \<Rightarrow> error + 'r"

datatype call =
  ListStacks string
| ListStackBranches string string
| ExecuteGitButlerCommand string "string list"

fun isExecute :: "call \<Rightarrow> bool" where
  "isExecute (ExecuteGitButlerCommand d a) = True"
| "isExecute c = False"

subsection \<open>\<^verbatim>\<open>JSON.stringify\<close> on the values the function builds\<close>

text \<open>
  The JavaScript values that \<^verbatim>\<open>commit\<close> serialises are strings, arrays and object
  literals. An object is the list of its properties in creation order, which is the
  order \<^verbatim>\<open>JSON.stringify\<close> writes them in.
\<close>

datatype json =
  JNull
| JBool bool
| JStr string
| JArr "json list"
| JObj "(string \<times> json) list"

definition hexDigit :: "nat \<Rightarrow> char" where
  "hexDigit n = (if n < 10 then char_of (48 + n) else char_of (87 + n))"

text \<open>
  The escapes of \<^verbatim>\<open>QuoteJSONString\<close>: the five short escapes, the quote, the backslash,
  and \<^verbatim>\<open>\u00XX\<close> (lower-case hexadecimal) for the other characters below 0x20.
\<close>

definition QuoteJSONChar :: "char \<Rightarrow> string" where
  "QuoteJSONChar c =
     (if c = CHR 0x08 then [CHR 0x5C, CHR ''b'']
      else if c = CHR 0x09 then [CHR 0x5C, CHR ''t'']
      else if c = CHR 0x0A then [CHR 0x5C, CHR ''n'']
      else if c = CHR 0x0C then [CHR 0x5C, CHR ''f'']
      else if c = CHR 0x0D then [CHR 0x5C, CHR ''r'']
      else if c = CHR 0x22 then [CHR 0x5C, CHR 0x22]
      else if c = CHR 0x5C then [CHR 0x5C, CHR 0x5C]
      else if (of_char c :: nat) < 32 then
        [CHR 0x5C, CHR ''u'', CHR ''0'', CHR ''0'',
         hexDigit (of_char c div 16), hexDigit (of_char c mod 16)]
      else [c])"

definition QuoteJSONString :: "string \<Rightarrow> string" where
  "QuoteJSONString s = [CHR 0x22] @ concat (map QuoteJSONChar s) @ [CHR 0x22]"

fun join :: "string \<Rightarrow> string list \<Rightarrow> string" where
  "join sep [] = []"
| "join sep [x] = x"
| "join sep (x # y # ys) = x @ sep @ join sep (y # ys)"

fun JSON_stringify :: "json \<Rightarrow> string" where
  "JSON_stringify JNull = ''null''"
| "JSON_stringify (JBool b) = (if b then ''true'' else ''false'')"
| "JSON_stringify (JStr s) = QuoteJSONString s"
| "JSON_stringify (JArr vs) = ''['' @ join '','' (map JSON_stringify vs) @ '']''"
| "JSON_stringify (JObj kvs) =
     ''{'' @ join '','' (map (\<lambda>(k, v). QuoteJSONString k @ '':'' @ JSON_stringify v) kvs) @ ''}''"

text \<open>The object literal \<^verbatim>\<open>{ pathBytes: filePath, hunkHeaders: [] }\<close> of type \<^verbatim>\<open>DiffSpec\<close>.\<close>

definition DiffSpec :: "string \<Rightarrow> json list \<Rightarrow> json" where
  "DiffSpec pathBytes hunkHeaders =
     JObj [(''pathBytes'', JStr pathBytes), (''hunkHeaders'', JArr hunkHeaders)]"

subsection \<open>\<^verbatim>\<open>commit\<close>\<close>

text \<open>The loop \<^verbatim>\<open>for (const filePath of params.filePaths) diffSpec.push(...)\<close>.\<close>

fun pushDiffSpecs :: "json list \<Rightarrow> string list \<Rightarrow> json list" where
  "pushDiffSpecs diffSpec [] = diffSpec"
| "pushDiffSpecs diffSpec (filePath # rest) =
     pushDiffSpecs (diffSpec @ [DiffSpec filePath []]) rest"

text \<open>
  The argument list as it stands when \<^verbatim>\<open>listStacks\<close> is called: the three initial
  arguments, then \<^verbatim>\<open>--diff-spec\<close> and the serialised array when there are file paths.
\<close>

definition commit_args :: "CommitParams \<Rightarrow> string list" where
  "commit_args params =
     (let args = [''commit'', ''--message'', message params] in
      if length (filePaths params) > 0 then
        (let diffSpec = pushDiffSpecs [] (filePaths params);
             diffSpecJson = JSON_stringify (JArr diffSpec)
         in args @ [''--diff-spec'', diffSpecJson])
      else args)"

text \<open>
  \<^verbatim>\<open>args.push('-s', params.branch); return executeGitButlerCommand(...)\<close>, which both
  branches of the loop body end with.
\<close>

definition dispatch :: "'r Backend \<Rightarrow> CommitParams \<Rightarrow> string list \<Rightarrow> (error + 'r) \<times> call list" where
  "dispatch be params args =
     (let args' = args @ [''-s'', branch params] in
      (executeGitButlerCommand be (project_directory params) args',
       [ExecuteGitButlerCommand (project_directory params) args']))"

text \<open>The body of the loop over the stacks, for a stack whose head names include the branch.\<close>

definition commit_to_stack ::
  "'r Backend \<Rightarrow> CommitParams \<Rightarrow> string list \<Rightarrow> Stack \<Rightarrow> (error + 'r) \<times> call list" where
  "commit_to_stack be params args stack =
     (let hs = map name (heads stack) in
      if length hs = 1 then dispatch be params args
      else
        (let fetch = ListStackBranches (project_directory params) (id' stack) in
         case listStackBranches be (project_directory params) (id' stack) of
           Inl e \<Rightarrow> (Inl e, [fetch])
         | Inr stackBranches \<Rightarrow>
             if length stackBranches = 0 then
               (Inl (Error (''No branches found in stack '' @ id' stack)), [fetch])
             else
               (case find (\<lambda>b. name b = branch params) stackBranches of
                  None \<Rightarrow>
                    (Inl (Error (''Branch '' @ branch params @ '' not found in stack '' @ id' stack)),
                     [fetch])
                | Some b \<Rightarrow>
                    if archived b then
                      (Inl (Error (''Branch '' @ branch params @ '' is archived'')), [fetch])
                    else
                      (let (r, calls) = dispatch be params args in (r, fetch # calls)))))"

text \<open>The loop \<^verbatim>\<open>for (const stack of stacks)\<close> and the \<^verbatim>\<open>throw\<close> after it.\<close>

fun commit_stacks ::
  "'r Backend \<Rightarrow> CommitParams \<Rightarrow> string list \<Rightarrow> Stack list \<Rightarrow> (error + 'r) \<times> call list" where
  "commit_stacks be params args [] =
     (Inl (Error (''Branch '' @ branch params @ '' not found in any stack'')), [])"
| "commit_stacks be params args (stack # rest) =
     (if branch params \<in> set (map name (heads stack)) then commit_to_stack be params args stack
      else commit_stacks be params args rest)"

definition commit :: "'r Backend \<Rightarrow> CommitParams \<Rightarrow> (error + 'r) \<times> call list" where
  "commit be params =
     (if all params \<and> length (filePaths params) > 0 then
        (Inl (Error ''Cannot use --all and file paths together''), [])
      else
        (let args = commit_args params;
             listing = ListStacks (project_directory params) in
         case listStacks be (project_directory params) of
           Inl e \<Rightarrow> (Inl e, [listing])
         | Inr stacks \<Rightarrow>
             if length stacks = 0 then (Inl (Error ''No stacks found''), [listing])
             else (let (r, calls) = commit_stacks be params args stacks in (r, listing # calls))))"

subsection \<open>The example scenario\<close>

text \<open>
  Two stacks: stack A with the single head \<^verbatim>\<open>main\<close>, stack B with the heads
  \<^verbatim>\<open>feature-1\<close> and \<^verbatim>\<open>feature-2\<close>. The backend lists them for every project, runs every
  command successfully, and answers \<^verbatim>\<open>listStackBranches\<close> as its argument says.
\<close>

definition scenario_stacks :: "Stack list" where
  "scenario_stacks =
     [\<lparr>id' = ''A'', heads = [\<lparr>name = ''main''\<rparr>]\<rparr>,
      \<lparr>id' = ''B'', heads = [\<lparr>name = ''feature-1''\<rparr>, \<lparr>name = ''feature-2''\<rparr>]\<rparr>]"

definition scenario_backend ::
  "(string \<Rightarrow> string \<Rightarrow> error + StackBranch list) \<Rightarrow> string Backend" where
  "scenario_backend fetch =
     \<lparr>listStacks = (\<lambda>d. Inr scenario_stacks),
      listStackBranches = fetch,
      executeGitButlerCommand = (\<lambda>d args. Inr ''done'')\<rparr>"

definition scenario_params :: "bool \<Rightarrow> string list \<Rightarrow> string \<Rightarrow> CommitParams" where
  "scenario_params a fps b =
     \<lparr>project_directory = ''/repo'', message = ''msg'', all = a, filePaths = fps, branch = b\<rparr>"

text \<open>A backend with no stack at all.\<close>

definition no_stacks_backend :: "string Backend" where
  "no_stacks_backend =
     \<lparr>listStacks = (\<lambda>d. Inr []),
      listStackBranches = (\<lambda>d s. Inr []),
      executeGitButlerCommand = (\<lambda>d args. Inr ''done'')\<rparr>"

section \<open>The stack service of the desktop client\<close>

subsection \<open>Endpoints and their tags\<close>

text \<open>
  Modelled from the spec: the enumeration \<^verbatim>\<open>ReduxTag\<close> is declared in \<^verbatim>\<open>$lib/state/tags\<close>,
  which is not among the sources. These are the four members the endpoints name.
\<close>

datatype ReduxTag = Stacks | StackBranches | Commit | CommitChanges

text \<open>
  The six endpoints that \<^verbatim>\<open>injectEndpoints\<close> builds, each with its backend command and
  its \<^verbatim>\<open>providesTags\<close> (queries) or \<^verbatim>\<open>invalidatesTags\<close> (mutations). The constructors are
  the endpoint names, capitalised.
\<close>

datatype endpoint =
  GetStacks | CreateStack | GetStackBranches | CreateCommit | GetCommitChanges
| UpdateCommitMessage

fun command :: "endpoint \<Rightarrow> string" where
  "command GetStacks = ''stacks''"
| "command CreateStack = ''create_virtual_branch''"
| "command GetStackBranches = ''stack_branches''"
| "command CreateCommit = ''create_commit_from_worktree_changes''"
| "command GetCommitChanges = ''changes_in_commit''"
| "command UpdateCommitMessage = ''update_commit_message''"

fun providesTags :: "endpoint \<Rightarrow> ReduxTag list" where
  "providesTags GetStacks = [Stacks]"
| "providesTags GetStackBranches = [StackBranches]"
| "providesTags GetCommitChanges = [CommitChanges]"
| "providesTags CreateStack = []"
| "providesTags CreateCommit = []"
| "providesTags UpdateCommitMessage = []"

fun invalidatesTags :: "endpoint \<Rightarrow> ReduxTag list" where
  "invalidatesTags CreateStack = [Stacks]"
| "invalidatesTags CreateCommit = [StackBranches, Commit]"
| "invalidatesTags UpdateCommitMessage = [StackBranches]"
| "invalidatesTags GetStacks = []"
| "invalidatesTags GetStackBranches = []"
| "invalidatesTags GetCommitChanges = []"

subsection \<open>The cache\<close>

text \<open>
  Modelled from the spec: the cache that reads these declarations belongs to the query
  library behind \<^verbatim>\<open>ClientState\<close>, which is not among the sources. Section 4.4 of the
  specification gives each cached read one of four states, and moves a read from Fresh
  to Stale when a mutation that declares an overlapping tag has succeeded. A cache
  entry is a read of an endpoint with its arguments.
\<close>

datatype status = Uninitialized | Fetching | Fresh | Stale

record CacheEntry =
  endpoint :: endpoint
  originalArgs :: "string list"
  status :: status

text \<open>
  Modelled from the spec: the transition of section 4.4. After a successful mutation a
  fresh entry whose endpoint provides one of the invalidated tags is stale; every other
  entry stays as it is.
\<close>

definition overlapping :: "ReduxTag list \<Rightarrow> ReduxTag list \<Rightarrow> bool" where
  "overlapping provided invalidated = (set provided \<inter> set invalidated \<noteq> {})"

definition invalidate :: "ReduxTag list \<Rightarrow> CacheEntry \<Rightarrow> CacheEntry" where
  "invalidate invalidated e =
     (if status e = Fresh \<and> overlapping (providesTags (endpoint e)) invalidated
      then e\<lparr>status := Stale\<rparr> else e)"

definition mutationFulfilled :: "endpoint \<Rightarrow> CacheEntry list \<Rightarrow> CacheEntry list" where
  "mutationFulfilled mutation cache = map (invalidate (invalidatesTags mutation)) cache"

subsection \<open>The branch adapter\<close>

text \<open>
  The desktop's \<^verbatim>\<open>WorkspaceBranch\<close> is declared in \<^verbatim>\<open>$lib/branches/v3\<close>; the service reads
  its \<^verbatim>\<open>name\<close> only, so it is any record that has one.
\<close>

type_synonym 'a WorkspaceBranch = "'a BranchHead_scheme"

text \<open>
  \<^verbatim>\<open>Array.prototype.sort\<close> with a comparer is stable. For a comparer that is a total
  preorder its result is the insertion sort below, which puts an element before the first
  one it does not compare greater than.
\<close>

fun insert_sorted :: "('t \<Rightarrow> 't \<Rightarrow> int) \<Rightarrow> 't \<Rightarrow> 't list \<Rightarrow> 't list" where
  "insert_sorted cmp x [] = [x]"
| "insert_sorted cmp x (y # ys) =
     (if cmp x y \<le> 0 then x # y # ys else y # insert_sorted cmp x ys)"

definition Array_sort :: "('t \<Rightarrow> 't \<Rightarrow> int) \<Rightarrow> 't list \<Rightarrow> 't list" where
  "Array_sort cmp xs = foldr (insert_sorted cmp) xs []"

text \<open>
  Modelled from the spec: \<^verbatim>\<open>createEntityAdapter\<close> belongs to the state library, which is
  not among the sources. Sections 4.4 and 9 of the specification describe what it keeps:
  a mapping from the natural key to the record, and a sorted projection. The state is the
  library's \<^verbatim>\<open>EntityState\<close>: the sorted keys \<^verbatim>\<open>ids\<close> and the dictionary \<^verbatim>\<open>entities\<close>.
  \<^verbatim>\<open>addMany\<close> leaves out the records whose key the state already holds, stores the others
  under their keys, and sorts; \<^verbatim>\<open>selectAll\<close> looks every key of \<^verbatim>\<open>ids\<close> up in
  \<^verbatim>\<open>entities\<close> (\<open>None\<close> is JavaScript's \<^verbatim>\<open>undefined\<close>).
\<close>

record 't EntityAdapter =
  selectId :: "'t \<Rightarrow> string"
  sortComparer :: "'t \<Rightarrow> 't \<Rightarrow> int"

record 't EntityState =
  ids :: "string list"
  entities :: "string \<rightharpoonup> 't"

text \<open>Modelled from the spec: the empty state, with no key and no record.\<close>

definition getInitialState :: "'t EntityState" where
  "getInitialState = \<lparr>ids = [], entities = Map.empty\<rparr>"

text \<open>
  Modelled from the spec: \<^verbatim>\<open>addMany\<close> of a sorted adapter. The records already in the state
  and the new ones are sorted together; a new record is stored under its key, a later one
  in the list over an earlier one.
\<close>

definition addMany :: "'t EntityAdapter \<Rightarrow> 't EntityState \<Rightarrow> 't list \<Rightarrow> 't EntityState" where
  "addMany adapter state newEntities =
     (let models = filter (\<lambda>model. selectId adapter model \<notin> set (ids state)) newEntities;
          existing = List.map_filter (entities state) (ids state);
          sortedEntities = Array_sort (sortComparer adapter) (existing @ models)
      in \<lparr>ids = map (selectId adapter) sortedEntities,
          entities = fold (\<lambda>model es. es(selectId adapter model \<mapsto> model)) models (entities state)\<rparr>)"

text \<open>Modelled from the spec: the sorted projection, the record of every key in order.\<close>

definition selectAll :: "'t EntityState \<Rightarrow> 't option list" where
  "selectAll state = map (entities state) (ids state)"

text \<open>
  \<^verbatim>\<open>branchAdapter\<close>: the key of a branch is its name, and two branches compare as their
  names do under \<^verbatim>\<open>String.prototype.localeCompare\<close>. That collation is the host's, so it
  is a parameter.
\<close>

definition branchAdapter :: "(string \<Rightarrow> string \<Rightarrow> int) \<Rightarrow> 'a WorkspaceBranch EntityAdapter" where
  "branchAdapter localeCompare =
     \<lparr>selectId = (\<lambda>change. name change),
      sortComparer = (\<lambda>a b. localeCompare (name a) (name b))\<rparr>"

text \<open>\<^verbatim>\<open>transformResponse\<close> of the endpoint \<^verbatim>\<open>getStackBranches\<close>.\<close>

definition transformResponse ::
  "(string \<Rightarrow> string \<Rightarrow> int) \<Rightarrow> 'a WorkspaceBranch list \<Rightarrow> 'a WorkspaceBranch EntityState" where
  "transformResponse localeCompare response =
     addMany (branchAdapter localeCompare) getInitialState response"

text \<open>
  \<^verbatim>\<open>Array.prototype.at\<close> for an integer index: a negative index counts from the end, and an
  index that is then still outside the array gives \<^verbatim>\<open>undefined\<close>.
\<close>

definition Array_at :: "'a list \<Rightarrow> int \<Rightarrow> 'a option" where
  "Array_at xs index =
     (let len = int (length xs);
          k = (if index \<ge> 0 then index else len + index)
      in if k < 0 \<or> k \<ge> len then None else Some (xs ! nat k))"

text \<open>
  The two reads of the service, as functions of the backend command
  \<^verbatim>\<open>stack_branches\<close>. A failed command is the query's error; the \<^verbatim>\<open>transform\<close> option is
  applied to the data of a successful one. In \<open>getBranchByIndex\<close> an element that is
  \<^verbatim>\<open>undefined\<close> and a missing element are the same value.
\<close>

definition getStackBranches ::
  "(string \<Rightarrow> string \<Rightarrow> error + 'a WorkspaceBranch list) \<Rightarrow> (string \<Rightarrow> string \<Rightarrow> int) \<Rightarrow>
   string \<Rightarrow> string \<Rightarrow> error + 'a WorkspaceBranch option list" where
  "getStackBranches stack_branches localeCompare projectId stackId =
     (case stack_branches projectId stackId of
        Inl e \<Rightarrow> Inl e
      | Inr response \<Rightarrow> Inr (selectAll (transformResponse localeCompare response)))"

definition getBranchByIndex ::
  "(string \<Rightarrow> string \<Rightarrow> error + 'a WorkspaceBranch list) \<Rightarrow> (string \<Rightarrow> string \<Rightarrow> int) \<Rightarrow>
   string \<Rightarrow> string \<Rightarrow> int \<Rightarrow> error + 'a WorkspaceBranch option" where
  "getBranchByIndex stack_branches localeCompare projectId stackId index =
     (case stack_branches projectId stackId of
        Inl e \<Rightarrow> Inl e
      | Inr response \<Rightarrow>
          Inr (case Array_at (selectAll (transformResponse localeCompare response)) index of
                 None \<Rightarrow> None
               | Some b \<Rightarrow> b))"

text \<open>
  The lexicographic order of the code units, as a comparer: negative, zero or positive as
  the first string comes before, equals or comes after the second.
\<close>

fun compareCodeUnits :: "string \<Rightarrow> string \<Rightarrow> int" where
  "compareCodeUnits [] [] = 0"
| "compareCodeUnits [] (y # ys) = - 1"
| "compareCodeUnits (x # xs) [] = 1"
| "compareCodeUnits (x # xs) (y # ys) =
     (if (of_char x :: nat) < of_char y then - 1
      else if (of_char y :: nat) < of_char x then 1
      else compareCodeUnits xs ys)"

text \<open>
  A model of \<^verbatim>\<open>String.prototype.localeCompare\<close> in the host's default collation, for names
  of ASCII letters and the soft hyphen. As the Unicode collation algorithm does, it leaves
  the soft hyphen (U+00AD) out, compares what remains letter by letter without regard to
  case, and only when that finds no difference compares the case, a lower-case letter
  before its upper-case one. So \<^verbatim>\<open>a\<close> comes before \<^verbatim>\<open>B\<close>, and two names that differ in soft
  hyphens only compare equal. A character that is not a letter keeps the place of its code
  unit here, where the host's tables are finer.
\<close>

definition ignorable :: "char \<Rightarrow> bool" where
  "ignorable c = (c = CHR 0xAD)"

definition isUpperCase :: "char \<Rightarrow> bool" where
  "isUpperCase c = (65 \<le> (of_char c :: nat) \<and> (of_char c :: nat) \<le> 90)"

definition toLowerCase :: "char \<Rightarrow> char" where
  "toLowerCase c =
     (if isUpperCase c
      then (case c of Char b0 b1 b2 b3 b4 b5 b6 b7 \<Rightarrow> Char b0 b1 b2 b3 b4 True b6 b7)
      else c)"

definition primaryKey :: "string \<Rightarrow> string" where
  "primaryKey s = map toLowerCase (filter (\<lambda>c. \<not> ignorable c) s)"

definition caseKey :: "string \<Rightarrow> string" where
  "caseKey s =
     map (\<lambda>c. if isUpperCase c then CHR ''1'' else CHR ''0'') (filter (\<lambda>c. \<not> ignorable c) s)"

definition rootCollation :: "string \<Rightarrow> string \<Rightarrow> int" where
  "rootCollation a b =
     (let primary = compareCodeUnits (primaryKey a) (primaryKey b) in
      if primary \<noteq> 0 then primary else compareCodeUnits (caseKey a) (caseKey b))"

text \<open>
  What the properties below ask of a comparer. It is consistent when it is antisymmetric in
  sign and transitive, which is what sorting asks of its argument. It is free of ties on a
  list of names when it returns zero for no two different names of the list.
\<close>

definition consistent_comparer :: "('t \<Rightarrow> 't \<Rightarrow> int) \<Rightarrow> bool" where
  "consistent_comparer cmp =
     ((\<forall>a b. (cmp a b < 0) = (cmp b a > 0)) \<and>
      (\<forall>a b c. cmp a b \<le> 0 \<and> cmp b c \<le> 0 \<longrightarrow> cmp a c \<le> 0))"

definition tie_free :: "(string \<Rightarrow> string \<Rightarrow> int) \<Rightarrow> string list \<Rightarrow> bool" where
  "tie_free cmp names = (\<forall>a \<in> set names. \<forall>b \<in> set names. cmp a b = 0 \<longrightarrow> a = b)"

subsection \<open>Examples\<close>

text \<open>
  A cache with one fresh read of each query, and the command \<^verbatim>\<open>stack_branches\<close> of a
  backend that answers with a fixed list.
\<close>

definition example_cache :: "CacheEntry list" where
  "example_cache =
     [\<lparr>endpoint = GetStacks, originalArgs = [''project''], status = Fresh\<rparr>,
      \<lparr>endpoint = GetStackBranches, originalArgs = [''project'', ''B''], status = Fresh\<rparr>,
      \<lparr>endpoint = GetCommitChanges, originalArgs = [''project'', ''c1''], status = Fresh\<rparr>]"

definition answering :: "BranchHead list \<Rightarrow> string \<Rightarrow> string \<Rightarrow> error + BranchHead list" where
  "answering response projectId stackId = Inr response"

section \<open>Properties of \<^verbatim>\<open>commit\<close>\<close>

subsection \<open>The loops\<close>

lemma pushDiffSpecs_map: "pushDiffSpecs acc fps = acc @ map (\<lambda>p. DiffSpec p []) fps"
  by (induction fps arbitrary: acc) simp_all

text \<open>
  The loop over the stacks stops at the first stack whose head names include the branch,
  which is the stack that \<open>find\<close> returns.
\<close>

lemma commit_stacks_first_match:
  "find (\<lambda>s. branch params \<in> set (map name (heads s))) stacks = Some stack \<Longrightarrow>
   commit_stacks be params args stacks = commit_to_stack be params args stack"
  by (induction stacks) (auto split: if_splits)

lemma commit_stacks_no_match:
  "find (\<lambda>s. branch params \<in> set (map name (heads s))) stacks = None \<Longrightarrow>
   commit_stacks be params args stacks =
     (Inl (Error (''Branch '' @ branch params @ '' not found in any stack'')), [])"
  by (induction stacks) (auto split: if_splits)

text \<open>Once the input has passed the first check and the stacks are listed, the loop decides.\<close>

lemma commit_listed:
  assumes "\<not> (all params \<and> filePaths params \<noteq> [])"
    and "listStacks be (project_directory params) = Inr stacks"
    and "stacks \<noteq> []"
  shows "commit be params =
           (fst (commit_stacks be params (commit_args params) stacks),
            ListStacks (project_directory params) #
              snd (commit_stacks be params (commit_args params) stacks))"
  using assms by (auto simp: commit_def Let_def split: prod.splits)

text \<open>The same, for a list in which some stack has the branch, and for one in which none has.\<close>

lemma commit_first_match:
  assumes "\<not> (all params \<and> filePaths params \<noteq> [])"
    and "listStacks be (project_directory params) = Inr stacks"
    and "find (\<lambda>s. branch params \<in> set (map name (heads s))) stacks = Some stack"
  shows "commit be params =
           (fst (commit_to_stack be params (commit_args params) stack),
            ListStacks (project_directory params) #
              snd (commit_to_stack be params (commit_args params) stack))"
proof -
  from assms(3) have "stacks \<noteq> []" by auto
  with assms show ?thesis
    by (simp add: commit_listed commit_stacks_first_match)
qed

lemma commit_no_match:
  assumes "\<not> (all params \<and> filePaths params \<noteq> [])"
    and "listStacks be (project_directory params) = Inr stacks"
    and "find (\<lambda>s. branch params \<in> set (map name (heads s))) stacks = None"
  shows "commit be params =
           (Inl (Error (if stacks = [] then ''No stacks found''
                        else ''Branch '' @ branch params @ '' not found in any stack'')),
            [ListStacks (project_directory params)])"
proof (cases "stacks = []")
  case True
  with assms(1,2) show ?thesis by (simp add: commit_def)
next
  case False
  with assms show ?thesis by (simp add: commit_listed commit_stacks_no_match)
qed

text \<open>Every command that \<^verbatim>\<open>commit\<close> runs has the arguments built so far, then \<^verbatim>\<open>-s\<close> and the branch.\<close>

lemma commit_to_stack_execute:
  assumes "commit_to_stack be params args stack = (r, calls)"
    and "ExecuteGitButlerCommand d a \<in> set calls"
  shows "d = project_directory params \<and> a = args @ [''-s'', branch params]"
  using assms
  by (auto simp: commit_to_stack_def dispatch_def Let_def
           split: if_splits sum.splits option.splits)

lemma commit_stacks_execute:
  assumes "commit_stacks be params args stacks = (r, calls)"
    and "ExecuteGitButlerCommand d a \<in> set calls"
  shows "d = project_directory params \<and> a = args @ [''-s'', branch params]"
  using assms
proof (induction stacks)
  case Nil
  then show ?case by simp
next
  case (Cons stack rest)
  then show ?case
    by (cases "branch params \<in> set (map name (heads stack))")
       (auto dest: commit_to_stack_execute)
qed

lemma commit_execute:
  assumes "commit be params = (r, calls)"
    and "ExecuteGitButlerCommand d a \<in> set calls"
  shows "d = project_directory params \<and> a = commit_args params @ [''-s'', branch params]"
proof -
  from assms obtain stacks r' calls' where
    "commit_stacks be params (commit_args params) stacks = (r', calls')"
    and "ExecuteGitButlerCommand d a \<in> set calls'"
    by (auto simp: commit_def Let_def split: if_splits sum.splits prod.splits)
  then show ?thesis by (rule commit_stacks_execute)
qed

lemma JSON_stringify_DiffSpec:
  "JSON_stringify (DiffSpec p []) =
     ''{'' @ QuoteJSONString ''pathBytes'' @ '':'' @ QuoteJSONString p @ '','' @
     QuoteJSONString ''hunkHeaders'' @ '':[]}''"
  by (simp add: DiffSpec_def)

subsection \<open>Validation\<close>

text \<open>
  C3. When \<^verbatim>\<open>all\<close> is true and \<^verbatim>\<open>filePaths\<close> is not empty, \<^verbatim>\<open>commit\<close> throws the error
  ``Cannot use --all and file paths together'' and has called nothing: neither
  \<^verbatim>\<open>listStacks\<close>, nor \<^verbatim>\<open>listStackBranches\<close>, nor \<^verbatim>\<open>executeGitButlerCommand\<close>. (The
  source has no class of validation errors; the error is told by its message.)
\<close>

theorem commit_all_with_filePaths_rejected:
  assumes "all params" and "filePaths params \<noteq> []"
  shows "commit be params = (Inl (Error ''Cannot use --all and file paths together''), [])"
  using assms by (simp add: commit_def)

theorem commit_all_with_filePaths_rejected_witness:
  "commit (scenario_backend (\<lambda>d s. Inr [])) (scenario_params True [''a.txt''] ''main'') =
     (Inl (Error ''Cannot use --all and file paths together''), [])"
  using commit_all_with_filePaths_rejected
    [of "scenario_params True [''a.txt''] ''main''" "scenario_backend (\<lambda>d s. Inr [])"]
  by (simp add: scenario_params_def)

subsection \<open>Resolution of the target branch\<close>

text \<open>
  C4. Let the input pass the first check and let \<^verbatim>\<open>listStacks\<close> return a list whose first
  stack with the branch among its head names has exactly one head. Then \<^verbatim>\<open>commit\<close> calls
  \<^verbatim>\<open>listStacks\<close> and \<^verbatim>\<open>executeGitButlerCommand\<close> and nothing else, the command ends with
  \<^verbatim>\<open>-s\<close> and the branch name, and the outcome of \<^verbatim>\<open>commit\<close> is the outcome of the
  command. \<^verbatim>\<open>listStackBranches\<close> is not called, so this holds whatever it would answer
  (\<open>fetch\<close> is any function put in its place, one that always fails included).
\<close>

theorem commit_single_head_fast_path:
  assumes "\<not> (all params \<and> filePaths params \<noteq> [])"
    and "listStacks be (project_directory params) = Inr stacks"
    and "find (\<lambda>s. branch params \<in> set (map name (heads s))) stacks = Some stack"
    and "length (heads stack) = 1"
  shows "commit (be\<lparr>listStackBranches := fetch\<rparr>) params =
           (executeGitButlerCommand be (project_directory params)
              (commit_args params @ [''-s'', branch params]),
            [ListStacks (project_directory params),
             ExecuteGitButlerCommand (project_directory params)
               (commit_args params @ [''-s'', branch params])])"
proof -
  let ?be = "be\<lparr>listStackBranches := fetch\<rparr>"
  from assms(3) have ne: "stacks \<noteq> []" by auto
  have ls: "listStacks ?be (project_directory params) = Inr stacks"
    using assms(2) by simp
  have "commit_stacks ?be params (commit_args params) stacks =
          commit_to_stack ?be params (commit_args params) stack"
    using assms(3) by (rule commit_stacks_first_match)
  also have "\<dots> = dispatch ?be params (commit_args params)"
    using assms(4) by (simp add: commit_to_stack_def)
  finally show ?thesis
    using commit_listed [OF assms(1) ls ne] by (simp add: dispatch_def Let_def)
qed

theorem commit_single_head_fast_path_witness:
  "commit (scenario_backend (\<lambda>d s. Inl (Error ''stack_branches failed'')))
     (scenario_params False [] ''main'') =
     (Inr ''done'',
      [ListStacks ''/repo'',
       ExecuteGitButlerCommand ''/repo'' [''commit'', ''--message'', ''msg'', ''-s'', ''main'']])"
  using commit_single_head_fast_path
    [of "scenario_params False [] ''main''" "scenario_backend (\<lambda>d s. Inr [])" scenario_stacks
        "\<lparr>id' = ''A'', heads = [\<lparr>name = ''main''\<rparr>]\<rparr>"
        "\<lambda>d s. Inl (Error ''stack_branches failed'')"]
  by (simp add: scenario_params_def scenario_backend_def scenario_stacks_def commit_args_def)

text \<open>
  C2, as the code has it. Let the input pass the first check and let \<^verbatim>\<open>listStacks\<close> return
  a list in which no stack has the branch among its head names. Then \<^verbatim>\<open>commit\<close> has called
  \<^verbatim>\<open>listStacks\<close> only, and it throws: for the empty list the error ``No stacks found'',
  for any other list the error ``Branch \<open>b\<close> not found in any stack'', whose message
  contains the branch name \<open>b\<close>.
\<close>

theorem commit_branch_in_no_stack:
  assumes "\<not> (all params \<and> filePaths params \<noteq> [])"
    and "listStacks be (project_directory params) = Inr stacks"
    and "\<forall>stack \<in> set stacks. branch params \<notin> set (map name (heads stack))"
  shows "commit be params =
           (Inl (Error (if stacks = [] then ''No stacks found''
                        else ''Branch '' @ branch params @ '' not found in any stack'')),
            [ListStacks (project_directory params)]) \<and>
         sublist (branch params) (''Branch '' @ branch params @ '' not found in any stack'')"
proof -
  from assms(3) have "find (\<lambda>s. branch params \<in> set (map name (heads s))) stacks = None"
    by (simp add: find_None_iff)
  with assms(1,2) have "commit be params =
           (Inl (Error (if stacks = [] then ''No stacks found''
                        else ''Branch '' @ branch params @ '' not found in any stack'')),
            [ListStacks (project_directory params)])"
    by (rule commit_no_match)
  moreover have
    "sublist (branch params) (''Branch '' @ branch params @ '' not found in any stack'')"
    by (rule sublist_appendI)
  ultimately show ?thesis by (rule conjI)
qed

theorem commit_branch_in_no_stack_witness:
  "commit (scenario_backend (\<lambda>d s. Inr [])) (scenario_params False [] ''feature-3'') =
     (Inl (Error ''Branch feature-3 not found in any stack''), [ListStacks ''/repo''])"
  using commit_branch_in_no_stack
    [of "scenario_params False [] ''feature-3''" "scenario_backend (\<lambda>d s. Inr [])"
        scenario_stacks]
  by (simp add: scenario_params_def scenario_backend_def scenario_stacks_def)

text \<open>
  For the empty list of stacks the message does not name the branch: with the target
  \<^verbatim>\<open>main\<close> the error is ``No stacks found''.
\<close>

theorem commit_no_stacks_counterexample:
  "commit no_stacks_backend (scenario_params False [] ''main'') =
     (Inl (Error ''No stacks found''), [ListStacks ''/repo'']) \<and>
   \<not> sublist ''main'' ''No stacks found''"
proof -
  have "\<not> sublist ''main'' ''No stacks found''"
    by (simp add: sublist_Cons_right prefix_Cons)
  then show ?thesis
    by (simp add: commit_def scenario_params_def no_stacks_backend_def)
qed

text \<open>
  C5. Let the input pass the first check, let the first listed stack with the branch among
  its head names have more than one head, and let the first record of that name in the
  list that \<^verbatim>\<open>listStackBranches\<close> returns for the stack be archived. Then \<^verbatim>\<open>commit\<close>
  throws the error ``Branch \<open>b\<close> is archived'', having called \<^verbatim>\<open>listStacks\<close> and
  \<^verbatim>\<open>listStackBranches\<close> and run no command.
\<close>

theorem commit_archived_branch_rejected:
  assumes "\<not> (all params \<and> filePaths params \<noteq> [])"
    and "listStacks be (project_directory params) = Inr stacks"
    and "find (\<lambda>s. branch params \<in> set (map name (heads s))) stacks = Some stack"
    and "length (heads stack) > 1"
    and "listStackBranches be (project_directory params) (id' stack) = Inr stackBranches"
    and "find (\<lambda>b. name b = branch params) stackBranches = Some b"
    and "archived b"
  shows "commit be params =
           (Inl (Error (''Branch '' @ branch params @ '' is archived'')),
            [ListStacks (project_directory params),
             ListStackBranches (project_directory params) (id' stack)])"
proof -
  from assms(6) have "stackBranches \<noteq> []" by auto
  with assms(4-7) have
    "commit_to_stack be params (commit_args params) stack =
       (Inl (Error (''Branch '' @ branch params @ '' is archived'')),
        [ListStackBranches (project_directory params) (id' stack)])"
    by (simp add: commit_to_stack_def)
  then show ?thesis
    using commit_first_match [OF assms(1-3)] by simp
qed

theorem commit_archived_branch_rejected_witness:
  "commit
     (scenario_backend (\<lambda>d s. Inr [\<lparr>name = ''feature-1'', archived = False\<rparr>,
                                   \<lparr>name = ''feature-2'', archived = True\<rparr>]))
     (scenario_params False [] ''feature-2'') =
     (Inl (Error ''Branch feature-2 is archived''),
      [ListStacks ''/repo'', ListStackBranches ''/repo'' ''B''])"
  using commit_archived_branch_rejected
    [of "scenario_params False [] ''feature-2''"
        "scenario_backend (\<lambda>d s. Inr [\<lparr>name = ''feature-1'', archived = False\<rparr>,
                                      \<lparr>name = ''feature-2'', archived = True\<rparr>])"
        scenario_stacks
        "\<lparr>id' = ''B'', heads = [\<lparr>name = ''feature-1''\<rparr>, \<lparr>name = ''feature-2''\<rparr>]\<rparr>"
        "[\<lparr>name = ''feature-1'', archived = False\<rparr>, \<lparr>name = ''feature-2'', archived = True\<rparr>]"
        "\<lparr>name = ''feature-2'', archived = True\<rparr>"]
  by (simp add: scenario_params_def scenario_backend_def scenario_stacks_def)

text \<open>
  C8. Let the input pass the first check, let the first listed stack with the branch among
  its head names have more than one head, and let \<^verbatim>\<open>listStackBranches\<close> return the empty
  list for it. Then \<^verbatim>\<open>commit\<close> throws the error ``No branches found in stack \<open>id\<close>'',
  having called \<^verbatim>\<open>listStacks\<close> and \<^verbatim>\<open>listStackBranches\<close> and run no command.
\<close>

theorem commit_empty_branch_list_rejected:
  assumes "\<not> (all params \<and> filePaths params \<noteq> [])"
    and "listStacks be (project_directory params) = Inr stacks"
    and "find (\<lambda>s. branch params \<in> set (map name (heads s))) stacks = Some stack"
    and "length (heads stack) > 1"
    and "listStackBranches be (project_directory params) (id' stack) = Inr []"
  shows "commit be params =
           (Inl (Error (''No branches found in stack '' @ id' stack)),
            [ListStacks (project_directory params),
             ListStackBranches (project_directory params) (id' stack)])"
proof -
  from assms(4,5) have
    "commit_to_stack be params (commit_args params) stack =
       (Inl (Error (''No branches found in stack '' @ id' stack)),
        [ListStackBranches (project_directory params) (id' stack)])"
    by (simp add: commit_to_stack_def)
  then show ?thesis
    using commit_first_match [OF assms(1-3)] by simp
qed

theorem commit_empty_branch_list_rejected_witness:
  "commit (scenario_backend (\<lambda>d s. Inr [])) (scenario_params False [] ''feature-2'') =
     (Inl (Error ''No branches found in stack B''),
      [ListStacks ''/repo'', ListStackBranches ''/repo'' ''B''])"
  using commit_empty_branch_list_rejected
    [of "scenario_params False [] ''feature-2''" "scenario_backend (\<lambda>d s. Inr [])"
        scenario_stacks
        "\<lparr>id' = ''B'', heads = [\<lparr>name = ''feature-1''\<rparr>, \<lparr>name = ''feature-2''\<rparr>]\<rparr>"]
  by (simp add: scenario_params_def scenario_backend_def scenario_stacks_def)

text \<open>
  C9. Let the input pass the first check and let \<^verbatim>\<open>listStacks\<close> return a list. If the
  first stack with the branch among its head names has exactly one head, \<^verbatim>\<open>commit\<close> runs
  the command for that branch whatever \<^verbatim>\<open>listStackBranches\<close> would report about it, an
  archived branch included: the flag is never read. And if \<^verbatim>\<open>commit\<close> ends with the error
  ``Branch \<open>b\<close> is archived'' without having run a command, then the first stack with the
  branch has more than one head and its branches were fetched.
\<close>

theorem commit_fast_path_skips_archived_check:
  assumes "\<not> (all params \<and> filePaths params \<noteq> [])"
    and "listStacks be (project_directory params) = Inr stacks"
  shows "(\<forall>stack.
            find (\<lambda>s. branch params \<in> set (map name (heads s))) stacks = Some stack \<and>
            length (heads stack) = 1 \<longrightarrow>
            commit be params =
              (executeGitButlerCommand be (project_directory params)
                 (commit_args params @ [''-s'', branch params]),
               [ListStacks (project_directory params),
                ExecuteGitButlerCommand (project_directory params)
                  (commit_args params @ [''-s'', branch params])])) \<and>
         (\<forall>calls.
            commit be params =
              (Inl (Error (''Branch '' @ branch params @ '' is archived'')), calls) \<and>
            \<not> list_ex isExecute calls \<longrightarrow>
            (\<exists>stack.
               find (\<lambda>s. branch params \<in> set (map name (heads s))) stacks = Some stack \<and>
               length (heads stack) > 1 \<and>
               calls = [ListStacks (project_directory params),
                        ListStackBranches (project_directory params) (id' stack)]))"
proof (intro conjI allI impI)
  fix stack
  assume "find (\<lambda>s. branch params \<in> set (map name (heads s))) stacks = Some stack \<and>
          length (heads stack) = 1"
  then show "commit be params =
      (executeGitButlerCommand be (project_directory params)
         (commit_args params @ [''-s'', branch params]),
       [ListStacks (project_directory params),
        ExecuteGitButlerCommand (project_directory params)
          (commit_args params @ [''-s'', branch params])])"
    using commit_first_match [OF assms, of stack]
    by (simp add: commit_to_stack_def dispatch_def Let_def)
next
  fix calls
  assume a: "commit be params =
      (Inl (Error (''Branch '' @ branch params @ '' is archived'')), calls) \<and>
      \<not> list_ex isExecute calls"
  show "\<exists>stack.
      find (\<lambda>s. branch params \<in> set (map name (heads s))) stacks = Some stack \<and>
      length (heads stack) > 1 \<and>
      calls = [ListStacks (project_directory params),
               ListStackBranches (project_directory params) (id' stack)]"
  proof (cases "find (\<lambda>s. branch params \<in> set (map name (heads s))) stacks")
    case None
    from commit_no_match [OF assms None] a show ?thesis
      by (simp split: if_splits)
  next
    case (Some stack)
    then have "branch params \<in> set (map name (heads stack))"
      by (auto simp: find_Some_iff)
    then have pos: "length (heads stack) > 0" by auto
    have "length (heads stack) \<noteq> 1"
    proof
      assume "length (heads stack) = 1"
      then have "commit_to_stack be params (commit_args params) stack =
          dispatch be params (commit_args params)"
        by (simp add: commit_to_stack_def)
      with commit_first_match [OF assms Some] a show False
        by (auto simp: dispatch_def Let_def)
    qed
    with pos have many: "length (heads stack) > 1" by linarith
    have "snd (commit_to_stack be params (commit_args params) stack) =
        [ListStackBranches (project_directory params) (id' stack)]"
      using a commit_first_match [OF assms Some] many
      by (auto simp: commit_to_stack_def dispatch_def Let_def
               split: sum.splits option.splits if_splits)
    with commit_first_match [OF assms Some] a Some many show ?thesis by auto
  qed
qed

theorem commit_fast_path_skips_archived_check_witness:
  "commit (scenario_backend (\<lambda>d s. Inr [\<lparr>name = ''main'', archived = True\<rparr>]))
     (scenario_params False [] ''main'') =
     (Inr ''done'',
      [ListStacks ''/repo'',
       ExecuteGitButlerCommand ''/repo'' [''commit'', ''--message'', ''msg'', ''-s'', ''main'']]) \<and>
   (\<exists>stack. find (\<lambda>s. ''feature-2'' \<in> set (map name (heads s))) scenario_stacks = Some stack \<and>
      length (heads stack) > 1)"
proof -
  let ?archived = "\<lambda>b. (\<lambda>d s. Inr [\<lparr>name = b, archived = True\<rparr>]) :: string \<Rightarrow> string \<Rightarrow> error + StackBranch list"
  have one: "\<not> (all (scenario_params False [] ''main'') \<and>
                 filePaths (scenario_params False [] ''main'') \<noteq> [])"
    by (simp add: scenario_params_def)
  have two: "listStacks (scenario_backend (?archived ''main''))
               (project_directory (scenario_params False [] ''main'')) = Inr scenario_stacks"
    by (simp add: scenario_backend_def)
  have fast: "commit (scenario_backend (?archived ''main'')) (scenario_params False [] ''main'') =
     (Inr ''done'',
      [ListStacks ''/repo'',
       ExecuteGitButlerCommand ''/repo'' [''commit'', ''--message'', ''msg'', ''-s'', ''main'']])"
    using commit_fast_path_skips_archived_check [OF one two]
    by (simp add: scenario_params_def scenario_backend_def scenario_stacks_def commit_args_def)
  have one': "\<not> (all (scenario_params False [] ''feature-2'') \<and>
                 filePaths (scenario_params False [] ''feature-2'') \<noteq> [])"
    by (simp add: scenario_params_def)
  have two': "listStacks (scenario_backend (?archived ''feature-2''))
               (project_directory (scenario_params False [] ''feature-2'')) = Inr scenario_stacks"
    by (simp add: scenario_backend_def)
  have run: "commit (scenario_backend (?archived ''feature-2''))
               (scenario_params False [] ''feature-2'') =
     (Inl (Error (''Branch '' @ branch (scenario_params False [] ''feature-2'') @ '' is archived'')),
      [ListStacks ''/repo'', ListStackBranches ''/repo'' ''B''])"
    by (simp add: commit_def commit_to_stack_def scenario_params_def scenario_backend_def
        scenario_stacks_def commit_args_def)
  have "\<exists>stack. find (\<lambda>s. ''feature-2'' \<in> set (map name (heads s))) scenario_stacks = Some stack \<and>
      length (heads stack) > 1"
    using commit_fast_path_skips_archived_check [OF one' two'] run
    by (auto simp: scenario_params_def)
  with fast show ?thesis by simp
qed

subsection \<open>The diff specs\<close>

text \<open>
  C6. Let \<^verbatim>\<open>all\<close> be false and \<^verbatim>\<open>filePaths\<close> not empty. The loop builds one object per
  path, in the order of the paths, each with \<^verbatim>\<open>pathBytes\<close> the path and \<^verbatim>\<open>hunkHeaders\<close>
  the empty array. Every command that \<^verbatim>\<open>commit\<close> runs has the seven arguments
  \<^verbatim>\<open>commit\<close>, \<^verbatim>\<open>--message\<close>, the message, \<^verbatim>\<open>--diff-spec\<close>, the serialised array,
  \<^verbatim>\<open>-s\<close> and the branch; the serialised array is one argument, a bracketed,
  comma-separated sequence of the objects' texts.
\<close>

theorem commit_diff_spec_argument:
  assumes "\<not> all params" and "filePaths params \<noteq> []"
    and "commit be params = (r, calls)"
    and "ExecuteGitButlerCommand d a \<in> set calls"
  shows "pushDiffSpecs [] (filePaths params) = map (\<lambda>filePath. DiffSpec filePath []) (filePaths params) \<and>
         d = project_directory params \<and>
         a = [''commit'', ''--message'', message params, ''--diff-spec'',
              JSON_stringify (JArr (pushDiffSpecs [] (filePaths params))),
              ''-s'', branch params] \<and>
         JSON_stringify (JArr (pushDiffSpecs [] (filePaths params))) =
           ''['' @
           join '',''
             (map (\<lambda>filePath.
                     ''{'' @ QuoteJSONString ''pathBytes'' @ '':'' @ QuoteJSONString filePath @
                     '','' @ QuoteJSONString ''hunkHeaders'' @ '':[]}'')
                (filePaths params)) @
           '']''"
proof -
  have args: "commit_args params =
      [''commit'', ''--message'', message params, ''--diff-spec'',
       JSON_stringify (JArr (pushDiffSpecs [] (filePaths params)))]"
    using assms(2) by (simp add: commit_args_def Let_def)
  have built: "pushDiffSpecs [] (filePaths params) =
      map (\<lambda>filePath. DiffSpec filePath []) (filePaths params)"
    by (simp add: pushDiffSpecs_map)
  have shape: "JSON_stringify (JArr (pushDiffSpecs [] (filePaths params))) =
      ''['' @
      join '',''
        (map (\<lambda>filePath.
                ''{'' @ QuoteJSONString ''pathBytes'' @ '':'' @ QuoteJSONString filePath @
                '','' @ QuoteJSONString ''hunkHeaders'' @ '':[]}'')
           (filePaths params)) @
      '']''"
    unfolding built JSON_stringify.simps(4) map_map comp_def JSON_stringify_DiffSpec ..
  have sent: "d = project_directory params \<and>
      a = [''commit'', ''--message'', message params, ''--diff-spec'',
           JSON_stringify (JArr (pushDiffSpecs [] (filePaths params))),
           ''-s'', branch params]"
    using commit_execute [OF assms(3,4)] unfolding args by simp
  from built sent shape show ?thesis by (intro conjI) (simp_all only:)
qed

theorem commit_diff_spec_argument_witness:
  "commit (scenario_backend (\<lambda>d s. Inr []))
     (scenario_params False [''a.txt'', ''src/b c.ts''] ''main'') =
     (Inr ''done'',
      [ListStacks ''/repo'',
       ExecuteGitButlerCommand ''/repo''
         [''commit'', ''--message'', ''msg'', ''--diff-spec'',
          ''[{'' @ [CHR 0x22] @ ''pathBytes'' @ [CHR 0x22] @ '':'' @ [CHR 0x22] @ ''a.txt'' @
          [CHR 0x22] @ '','' @ [CHR 0x22] @ ''hunkHeaders'' @ [CHR 0x22] @ '':[]},{'' @
          [CHR 0x22] @ ''pathBytes'' @ [CHR 0x22] @ '':'' @ [CHR 0x22] @ ''src/b c.ts'' @
          [CHR 0x22] @ '','' @ [CHR 0x22] @ ''hunkHeaders'' @ [CHR 0x22] @ '':[]}]'',
          ''-s'', ''main'']]) \<and>
   pushDiffSpecs [] [''a.txt'', ''src/b c.ts''] =
     [DiffSpec ''a.txt'' [], DiffSpec ''src/b c.ts'' []]"
proof -
  let ?p = "scenario_params False [''a.txt'', ''src/b c.ts''] ''main''"
  let ?be = "scenario_backend (\<lambda>d s. Inr [])"
  let ?a = "commit_args ?p @ [''-s'', ''main'']"
  have run: "commit ?be ?p = (Inr ''done'', [ListStacks ''/repo'', ExecuteGitButlerCommand ''/repo'' ?a])"
    by (simp add: commit_def commit_to_stack_def dispatch_def scenario_params_def
        scenario_backend_def scenario_stacks_def Let_def)
  have "ExecuteGitButlerCommand ''/repo'' ?a \<in>
          set [ListStacks ''/repo'', ExecuteGitButlerCommand ''/repo'' ?a]"
    by simp
  from commit_diff_spec_argument [OF _ _ run this]
  show ?thesis
    using run
    by (simp add: scenario_params_def QuoteJSONString_def QuoteJSONChar_def)
qed

section \<open>Properties of the stack service\<close>

subsection \<open>Sorting with a comparer\<close>

lemma mset_insert_sorted: "mset (insert_sorted cmp x xs) = add_mset x (mset xs)"
  by (induction xs) simp_all

lemma mset_Array_sort: "mset (Array_sort cmp xs) = mset xs"
  by (induction xs) (simp_all add: Array_sort_def mset_insert_sorted)

lemma set_insert_sorted: "set (insert_sorted cmp x xs) = insert x (set xs)"
  by (induction xs) auto

lemma set_Array_sort: "set (Array_sort cmp xs) = set xs"
  using mset_Array_sort [of cmp xs] by (metis set_mset_mset)

lemma length_Array_sort: "length (Array_sort cmp xs) = length xs"
  using mset_Array_sort [of cmp xs] by (metis size_mset)

lemma consistent_total:
  assumes "consistent_comparer cmp"
  shows "cmp a b \<le> 0 \<or> cmp b a \<le> 0"
proof (cases "cmp a b \<le> 0")
  case True
  then show ?thesis ..
next
  case False
  then have "cmp a b > 0" by simp
  with assms have "cmp b a < 0" by (simp add: consistent_comparer_def)
  then show ?thesis by simp
qed

lemma consistent_trans:
  assumes "consistent_comparer cmp" and "cmp a b \<le> 0" and "cmp b c \<le> 0"
  shows "cmp a c \<le> 0"
  using assms unfolding consistent_comparer_def by blast

lemma sorted_insert_sorted:
  assumes "consistent_comparer cmp"
    and "sorted_wrt (\<lambda>a b. cmp a b \<le> 0) xs"
  shows "sorted_wrt (\<lambda>a b. cmp a b \<le> 0) (insert_sorted cmp x xs)"
  using assms(2)
proof (induction xs)
  case Nil
  then show ?case by simp
next
  case (Cons y ys)
  show ?case
  proof (cases "cmp x y \<le> 0")
    case True
    have "cmp x z \<le> 0" if "z \<in> set ys" for z
    proof -
      from Cons.prems that have "cmp y z \<le> 0" by simp
      with True show ?thesis by (rule consistent_trans [OF assms(1)])
    qed
    with True Cons.prems show ?thesis by simp
  next
    case False
    with consistent_total [OF assms(1), of x y] have "cmp y x \<le> 0" by simp
    with False Cons show ?thesis by (simp add: set_insert_sorted)
  qed
qed

lemma sorted_Array_sort:
  assumes "consistent_comparer cmp"
  shows "sorted_wrt (\<lambda>a b. cmp a b \<le> 0) (Array_sort cmp xs)"
  by (induction xs) (simp_all add: Array_sort_def sorted_insert_sorted [OF assms])

text \<open>Two sorted arrangements of the same elements are equal when ties are equalities.\<close>

lemma sorted_wrt_mset_unique:
  assumes "sorted_wrt R xs" and "sorted_wrt R ys" and "mset xs = mset ys"
    and "\<And>a b. a \<in> set xs \<Longrightarrow> b \<in> set xs \<Longrightarrow> R a b \<Longrightarrow> R b a \<Longrightarrow> a = b"
  shows "xs = ys"
  using assms
proof (induction xs arbitrary: ys)
  case Nil
  then show ?case by simp
next
  case (Cons x xs')
  from Cons.prems(3) obtain y ys' where ys: "ys = y # ys'"
    by (cases ys) auto
  have sets: "set (x # xs') = set (y # ys')"
    using Cons.prems(3) ys by (metis set_mset_mset)
  have "x = y"
  proof (rule ccontr)
    assume neq: "x \<noteq> y"
    with sets have "x \<in> set ys'" and "y \<in> set xs'" by auto
    with Cons.prems(1,2) ys have "R y x" and "R x y" by auto
    with Cons.prems(4) [of x y] sets have "x = y" by auto
    with neq show False ..
  qed
  moreover from this Cons.prems(3) ys have "mset xs' = mset ys'" by simp
  with Cons.IH [of ys'] Cons.prems(1,2,4) ys have "xs' = ys'" by auto
  ultimately show ?case using ys by simp
qed

lemma consistent_lift:
  assumes "consistent_comparer cmp"
  shows "consistent_comparer (\<lambda>a b. cmp (f a) (f b))"
  using assms unfolding consistent_comparer_def by blast

lemma Array_sort_permutation:
  fixes cmp :: "string \<Rightarrow> string \<Rightarrow> int"
  assumes c: "consistent_comparer cmp" and s: "tie_free cmp (map f xs)"
    and d: "distinct (map f xs)" and m: "mset ys = mset xs"
  shows "Array_sort (\<lambda>a b. cmp (f a) (f b)) ys = Array_sort (\<lambda>a b. cmp (f a) (f b)) xs"
proof -
  let ?c = "\<lambda>a b. cmp (f a) (f b)"
  let ?R = "\<lambda>a b. ?c a b \<le> 0"
  have inj: "inj_on f (set xs)" using d by (simp add: distinct_map)
  have tie: "a = b" if "a \<in> set (Array_sort ?c ys)" "b \<in> set (Array_sort ?c ys)" "?R a b" "?R b a" for a b
  proof -
    from that(1,2) m have ab: "a \<in> set xs" "b \<in> set xs"
      by (metis set_Array_sort set_mset_mset)+
    from c that(3,4) have "cmp (f a) (f b) = 0"
      unfolding consistent_comparer_def by (metis less_le not_less)
    with s ab have "f a = f b" by (simp add: tie_free_def)
    with inj ab show ?thesis by (simp add: inj_on_def)
  qed
  show ?thesis
    by (rule sorted_wrt_mset_unique [where R = ?R])
       (simp_all add: sorted_Array_sort consistent_lift [OF c] mset_Array_sort m tie)
qed

subsection \<open>The order of the code units and the collation are consistent comparers\<close>

lemma compareCodeUnits_sign: "(compareCodeUnits a b < 0) = (compareCodeUnits b a > 0)"
  by (induction a b rule: compareCodeUnits.induct) auto

lemma compareCodeUnits_zero: "(compareCodeUnits a b = 0) = (a = b)"
  by (induction a b rule: compareCodeUnits.induct) auto

lemma compareCodeUnits_Cons:
  "(compareCodeUnits (x # xs) (y # ys) \<le> 0) =
     ((of_char x :: nat) < of_char y \<or>
      ((of_char x :: nat) = of_char y \<and> compareCodeUnits xs ys \<le> 0))"
  by (simp add: not_less order_class.order.antisym)

lemma compareCodeUnits_trans:
  "compareCodeUnits a b \<le> 0 \<Longrightarrow> compareCodeUnits b c \<le> 0 \<Longrightarrow> compareCodeUnits a c \<le> 0"
proof (induction a arbitrary: b c)
  case Nil
  then show ?case by (cases c) simp_all
next
  case (Cons x xs)
  from Cons.prems(1) obtain y ys where b: "b = y # ys"
    by (cases b) simp_all
  from Cons.prems(2) b obtain z zs where c: "c = z # zs"
    by (cases c) simp_all
  from Cons.prems b c have
    xy: "(of_char x :: nat) < of_char y \<or>
         ((of_char x :: nat) = of_char y \<and> compareCodeUnits xs ys \<le> 0)"
    and yz: "(of_char y :: nat) < of_char z \<or>
         ((of_char y :: nat) = of_char z \<and> compareCodeUnits ys zs \<le> 0)"
    by (simp_all only: compareCodeUnits_Cons)
  show ?case
  proof (cases "(of_char x :: nat) < of_char z")
    case True
    then show ?thesis unfolding c compareCodeUnits_Cons ..
  next
    case False
    with xy yz have eq: "(of_char x :: nat) = of_char z"
      and r: "compareCodeUnits xs ys \<le> 0" "compareCodeUnits ys zs \<le> 0"
      by linarith+
    from r have "compareCodeUnits xs zs \<le> 0" by (rule Cons.IH)
    with eq show ?thesis unfolding c compareCodeUnits_Cons by simp
  qed
qed

lemma consistent_compareCodeUnits: "consistent_comparer compareCodeUnits"
  unfolding consistent_comparer_def
  using compareCodeUnits_sign compareCodeUnits_trans by blast

text \<open>Comparing by one key, and by a second key where the first finds no difference.\<close>

lemma consistent_by_keys:
  fixes f g :: "'a \<Rightarrow> string"
  defines "cmp \<equiv> \<lambda>a b. (let primary = compareCodeUnits (f a) (f b) in
      if primary \<noteq> 0 then primary else compareCodeUnits (g a) (g b))"
  shows "consistent_comparer cmp"
  unfolding consistent_comparer_def
proof (intro conjI allI impI)
  fix a b
  show "(cmp a b < 0) = (cmp b a > 0)"
  proof (cases "f a = f b")
    case True
    then show ?thesis
      by (simp add: cmp_def compareCodeUnits_zero compareCodeUnits_sign)
  next
    case False
    then have "compareCodeUnits (f a) (f b) \<noteq> 0" "compareCodeUnits (f b) (f a) \<noteq> 0"
      by (simp_all add: compareCodeUnits_zero)
    then show ?thesis
      by (simp add: cmp_def compareCodeUnits_sign)
  qed
next
  fix a b c
  assume le: "cmp a b \<le> 0 \<and> cmp b c \<le> 0"
  let ?p = "\<lambda>x y. compareCodeUnits (f x) (f y)"
  let ?t = "\<lambda>x y. compareCodeUnits (g x) (g y)"
  have split: "?p x y < 0 \<or> (f x = f y \<and> ?t x y \<le> 0)" if "cmp x y \<le> 0" for x y
  proof (cases "?p x y = 0")
    case True
    then have "f x = f y" by (simp add: compareCodeUnits_zero)
    moreover from True that have "?t x y \<le> 0" by (simp add: cmp_def)
    ultimately show ?thesis by simp
  next
    case False
    with that have "?p x y \<le> 0" by (simp add: cmp_def)
    with False show ?thesis by simp
  qed
  from le have ab: "?p a b < 0 \<or> (f a = f b \<and> ?t a b \<le> 0)"
    and bc: "?p b c < 0 \<or> (f b = f c \<and> ?t b c \<le> 0)"
    by (simp_all add: split)
  have strict: "?p a c < 0" if "?p a b < 0" "?p b c < 0"
  proof -
    from that have "?p a c \<le> 0"
      using compareCodeUnits_trans [of "f a" "f b" "f c"] by simp
    moreover have "?p a c \<noteq> 0"
    proof
      assume "?p a c = 0"
      then have "f a = f c" by (simp add: compareCodeUnits_zero)
      with that(1) have "?p c b < 0" by simp
      then have "?p b c > 0" by (simp add: compareCodeUnits_sign)
      with that(2) show False by simp
    qed
    ultimately show ?thesis by simp
  qed
  have "?p a c < 0 \<or> (f a = f c \<and> ?t a b \<le> 0 \<and> ?t b c \<le> 0)"
  proof (cases "?p a b < 0")
    case True
    show ?thesis
    proof (cases "?p b c < 0")
      case True
      with \<open>?p a b < 0\<close> have "?p a c < 0" by (rule strict)
      then show ?thesis ..
    next
      case False
      with bc have "f b = f c" by simp
      with \<open>?p a b < 0\<close> show ?thesis by simp
    qed
  next
    case False
    with ab have eq: "f a = f b" and t: "?t a b \<le> 0" by simp_all
    from bc eq t show ?thesis by auto
  qed
  then consider
      (strict) "?p a c < 0"
    | (tied) "f a = f c" "?t a b \<le> 0" "?t b c \<le> 0"
    by blast
  then show "cmp a c \<le> 0"
  proof cases
    case strict
    then show ?thesis by (simp add: cmp_def)
  next
    case tied
    from tied(2,3) have "?t a c \<le> 0" by (rule compareCodeUnits_trans)
    with tied(1) show ?thesis by (simp add: cmp_def compareCodeUnits_zero)
  qed
qed

lemma consistent_rootCollation: "consistent_comparer rootCollation"
proof -
  have "rootCollation = (\<lambda>a b. (let primary = compareCodeUnits (primaryKey a) (primaryKey b) in
      if primary \<noteq> 0 then primary else compareCodeUnits (caseKey a) (caseKey b)))"
    by (intro ext) (simp add: rootCollation_def)
  then show ?thesis using consistent_by_keys [of primaryKey caseKey] by simp
qed

subsection \<open>The state that \<^verbatim>\<open>transformResponse\<close> builds\<close>

text \<open>The dictionary: the last record stored under a key stays.\<close>

lemma find_snoc:
  "find P (xs @ [x]) = (case find P xs of None \<Rightarrow> (if P x then Some x else None) | Some y \<Rightarrow> Some y)"
  by (induction xs) simp_all

lemma fold_store:
  "fold (\<lambda>model es. es(f model \<mapsto> model)) xs m k =
     (case find (\<lambda>b. f b = k) (rev xs) of None \<Rightarrow> m k | Some b \<Rightarrow> Some b)"
  by (induction xs arbitrary: m) (simp_all add: find_snoc split: option.splits)

lemma transformResponse_ids:
  "ids (transformResponse lc response) =
     map name (Array_sort (\<lambda>a b. lc (name a) (name b)) response)"
  by (simp add: transformResponse_def addMany_def getInitialState_def branchAdapter_def
      List.map_filter_simps)

lemma transformResponse_entities:
  "entities (transformResponse lc response) k = find (\<lambda>b. name b = k) (rev response)"
  by (simp add: transformResponse_def addMany_def getInitialState_def branchAdapter_def
      fold_store split: option.splits)

lemma transformResponse_entities_distinct:
  assumes "distinct (map name response)" and "b \<in> set response"
  shows "entities (transformResponse lc response) (name b) = Some b"
proof -
  from assms(2) obtain b' where f: "find (\<lambda>x. name x = name b) (rev response) = Some b'"
    by (cases "find (\<lambda>x. name x = name b) (rev response)") (auto simp: find_None_iff)
  then have "b' \<in> set response" and "name b' = name b"
    by (auto simp: find_Some_iff) (metis nth_mem set_rev length_rev)
  with assms have "b' = b" by (simp add: distinct_map inj_on_def)
  with f show ?thesis by (simp add: transformResponse_entities)
qed

lemma selectAll_distinct:
  assumes "distinct (map name response)"
  shows "selectAll (transformResponse lc response) =
           map Some (Array_sort (\<lambda>a b. lc (name a) (name b)) response)"
  using assms
  by (simp add: selectAll_def transformResponse_ids transformResponse_entities_distinct
      set_Array_sort)

lemma transformResponse_keyed:
  assumes "b \<in> set response"
  shows "\<exists>b'. entities (transformResponse lc response) (name b) = Some b' \<and>
              name b' = name b \<and> b' \<in> set response"
proof -
  from assms obtain b' where f: "find (\<lambda>x. name x = name b) (rev response) = Some b'"
    by (cases "find (\<lambda>x. name x = name b) (rev response)") (auto simp: find_None_iff)
  then have "b' \<in> set response" and "name b' = name b"
    by (auto simp: find_Some_iff) (metis nth_mem set_rev length_rev)
  with f show ?thesis by (simp add: transformResponse_entities)
qed

lemma transformResponse_stored:
  assumes "entities (transformResponse lc response) k = Some b"
  shows "b \<in> set response \<and> name b = k"
proof -
  from assms have "find (\<lambda>x. name x = k) (rev response) = Some b"
    by (simp add: transformResponse_entities)
  then show ?thesis
    by (auto simp: find_Some_iff) (metis nth_mem set_rev length_rev)
qed

lemma transformResponse_dom:
  "dom (entities (transformResponse lc response)) = name ` set response"
proof
  show "dom (entities (transformResponse lc response)) \<subseteq> name ` set response"
    using transformResponse_stored by fastforce
  show "name ` set response \<subseteq> dom (entities (transformResponse lc response))"
    using transformResponse_keyed by fastforce
qed

lemma selectAll_view:
  fixes response :: "'a WorkspaceBranch list"
  assumes "consistent_comparer lc"
  shows "\<exists>view. selectAll (transformResponse lc response) = map Some view \<and>
           length view = length response \<and> set view \<subseteq> set response \<and>
           sorted_wrt (\<lambda>a b. lc (name a) (name b) \<le> 0) view"
proof -
  let ?st = "transformResponse lc response"
  let ?cmp = "\<lambda>a b :: 'a WorkspaceBranch. lc (name a) (name b)"
  let ?sorted = "Array_sort ?cmp response"
  define view where "view = map (\<lambda>b. the (entities ?st (name b))) ?sorted"
  have stored: "entities ?st (name b) = Some (the (entities ?st (name b))) \<and>
                name (the (entities ?st (name b))) = name b \<and>
                the (entities ?st (name b)) \<in> set response"
    if "b \<in> set ?sorted" for b
  proof -
    from that have "b \<in> set response" by (simp add: set_Array_sort)
    from transformResponse_keyed [OF this, of lc] show ?thesis by auto
  qed
  have "selectAll ?st = map Some view"
    using stored by (simp add: selectAll_def transformResponse_ids view_def)
  moreover have "length view = length response"
    by (simp add: view_def length_Array_sort)
  moreover have "set view \<subseteq> set response"
    using stored by (auto simp: view_def)
  moreover have "sorted_wrt (\<lambda>a b. lc (name a) (name b) \<le> 0) view"
  proof -
    have names: "map name view = map name ?sorted"
      using stored by (simp add: view_def)
    have "sorted_wrt (\<lambda>a b. ?cmp a b \<le> 0) ?sorted"
      by (rule sorted_Array_sort) (rule consistent_lift [OF assms])
    then have "sorted_wrt (\<lambda>x y. lc x y \<le> 0) (map name ?sorted)"
      by (simp add: sorted_wrt_map)
    with names have "sorted_wrt (\<lambda>x y. lc x y \<le> 0) (map name view)" by simp
    then show ?thesis by (simp add: sorted_wrt_map)
  qed
  ultimately show ?thesis by blast
qed

lemma transformResponse_permutation:
  fixes response :: "'a WorkspaceBranch list"
  assumes "consistent_comparer lc" and "tie_free lc (map name response)"
    and "distinct (map name response)" and "mset response' = mset response"
  shows "transformResponse lc response' = transformResponse lc response"
proof -
  from assms(3,4) have d': "distinct (map name response')"
    by (metis distinct_map mset_eq_setD mset_map mset_eq_imp_distinct_iff)
  have sets: "set response' = set response"
    using assms(4) by (rule mset_eq_setD)
  have "ids (transformResponse lc response') = ids (transformResponse lc response)"
    using Array_sort_permutation [OF assms(1,2,3,4)]
    by (simp add: transformResponse_ids)
  moreover have "entities (transformResponse lc response') =
                 entities (transformResponse lc response)"
  proof
    fix k
    show "entities (transformResponse lc response') k =
          entities (transformResponse lc response) k"
    proof (cases "entities (transformResponse lc response) k")
      case None
      then have "k \<notin> name ` set response"
        using transformResponse_dom [of lc response] by auto
      with sets have "k \<notin> dom (entities (transformResponse lc response'))"
        by (simp add: transformResponse_dom)
      with None show ?thesis by auto
    next
      case (Some b)
      then have "b \<in> set response'" and "name b = k"
        using transformResponse_stored sets by auto
      with d' have "entities (transformResponse lc response') k = Some b"
        using transformResponse_entities_distinct by auto
      with Some show ?thesis by simp
    qed
  qed
  moreover have "EntityState.more (transformResponse lc response') =
                 EntityState.more (transformResponse lc response)"
    by simp
  ultimately show ?thesis by (rule EntityState.equality)
qed

text \<open>
  C7, as the code has it. Let the comparer be consistent, as a collation is. For every list
  that \<^verbatim>\<open>stack_branches\<close> returns, the cached state is keyed by branch name: its keys are
  the names in the list, and the record under a key has that name. The list that
  \<^verbatim>\<open>getStackBranches\<close> exposes holds as many branches and is sorted by name in the order
  of the comparer, which is \<^verbatim>\<open>localeCompare\<close> and not the order of the code units; for
  distinct names it is the fetched list, sorted. If the names are distinct and the comparer
  returns zero for no two different names among them, every permutation of the list gives
  the same cached state and the same exposed list.
\<close>

theorem branch_view_keyed_sorted_by_comparer:
  fixes response :: "'a WorkspaceBranch list"
  assumes "consistent_comparer localeCompare"
  shows "dom (entities (transformResponse localeCompare response)) = name ` set response \<and>
         (\<forall>k b. entities (transformResponse localeCompare response) k = Some b \<longrightarrow>
                 b \<in> set response \<and> name b = k) \<and>
         (\<exists>view. getStackBranches (\<lambda>p s. Inr response) localeCompare projectId stackId =
                    Inr (map Some view) \<and>
                  length view = length response \<and> set view \<subseteq> set response \<and>
                  sorted_wrt (\<lambda>a b. localeCompare (name a) (name b) \<le> 0) view) \<and>
         (distinct (map name response) \<longrightarrow>
            getStackBranches (\<lambda>p s. Inr response) localeCompare projectId stackId =
              Inr (map Some (Array_sort (\<lambda>a b. localeCompare (name a) (name b)) response))) \<and>
         (\<forall>response'. tie_free localeCompare (map name response) \<and>
                       distinct (map name response) \<and> mset response' = mset response \<longrightarrow>
            transformResponse localeCompare response' = transformResponse localeCompare response \<and>
            getStackBranches (\<lambda>p s. Inr response') localeCompare projectId stackId =
            getStackBranches (\<lambda>p s. Inr response) localeCompare projectId stackId)"
proof (intro conjI allI impI)
  show "dom (entities (transformResponse localeCompare response)) = name ` set response"
    by (rule transformResponse_dom)
next
  fix k b
  assume "entities (transformResponse localeCompare response) k = Some b"
  then have "b \<in> set response \<and> name b = k" by (rule transformResponse_stored)
  then show "b \<in> set response" and "name b = k" by simp_all
next
  show "\<exists>view. getStackBranches (\<lambda>p s. Inr response) localeCompare projectId stackId =
                    Inr (map Some view) \<and>
                  length view = length response \<and> set view \<subseteq> set response \<and>
                  sorted_wrt (\<lambda>a b. localeCompare (name a) (name b) \<le> 0) view"
    using selectAll_view [OF assms, of response] by (simp add: getStackBranches_def)
next
  assume "distinct (map name response)"
  then show "getStackBranches (\<lambda>p s. Inr response) localeCompare projectId stackId =
      Inr (map Some (Array_sort (\<lambda>a b. localeCompare (name a) (name b)) response))"
    by (simp add: getStackBranches_def selectAll_distinct)
next
  fix response' :: "'a WorkspaceBranch list"
  assume a: "tie_free localeCompare (map name response) \<and>
             distinct (map name response) \<and> mset response' = mset response"
  then have eq: "transformResponse localeCompare response' = transformResponse localeCompare response"
    using transformResponse_permutation [OF assms] by blast
  then show "transformResponse localeCompare response' = transformResponse localeCompare response" .
  from eq show "getStackBranches (\<lambda>p s. Inr response') localeCompare projectId stackId =
      getStackBranches (\<lambda>p s. Inr response) localeCompare projectId stackId"
    by (simp add: getStackBranches_def)
qed

theorem branch_view_keyed_sorted_by_comparer_witness:
  "getStackBranches
     (answering [\<lparr>name = ''B''\<rparr>, \<lparr>name = ''a''\<rparr>, \<lparr>name = ''A''\<rparr>, \<lparr>name = ''b''\<rparr>])
     rootCollation ''project'' ''S'' =
     Inr [Some \<lparr>name = ''a''\<rparr>, Some \<lparr>name = ''A''\<rparr>, Some \<lparr>name = ''b''\<rparr>, Some \<lparr>name = ''B''\<rparr>] \<and>
   getStackBranches
     (answering [\<lparr>name = ''b''\<rparr>, \<lparr>name = ''A''\<rparr>, \<lparr>name = ''a''\<rparr>, \<lparr>name = ''B''\<rparr>])
     rootCollation ''project'' ''S'' =
   getStackBranches
     (answering [\<lparr>name = ''B''\<rparr>, \<lparr>name = ''a''\<rparr>, \<lparr>name = ''A''\<rparr>, \<lparr>name = ''b''\<rparr>])
     rootCollation ''project'' ''S''"
proof -
  let ?r = "[\<lparr>name = ''B''\<rparr>, \<lparr>name = ''a''\<rparr>, \<lparr>name = ''A''\<rparr>, \<lparr>name = ''b''\<rparr>]"
  let ?r' = "[\<lparr>name = ''b''\<rparr>, \<lparr>name = ''A''\<rparr>, \<lparr>name = ''a''\<rparr>, \<lparr>name = ''B''\<rparr>]"
  note keys = rootCollation_def primaryKey_def caseKey_def toLowerCase_def isUpperCase_def
    ignorable_def
  have fn: "answering r = (\<lambda>p s. Inr r)" for r
    by (rule ext)+ (simp add: answering_def)
  have d: "distinct (map name ?r)" by simp
  have m: "mset ?r' = mset ?r" by simp
  have free: "tie_free rootCollation (map name ?r)"
    by (simp add: tie_free_def keys)
  have sorted: "Array_sort (\<lambda>a b. rootCollation (name a) (name b)) ?r =
      [\<lparr>name = ''a''\<rparr>, \<lparr>name = ''A''\<rparr>, \<lparr>name = ''b''\<rparr>, \<lparr>name = ''B''\<rparr>]"
    by (simp add: Array_sort_def keys)
  from branch_view_keyed_sorted_by_comparer
         [OF consistent_rootCollation, of ?r "''project''" "''S''"]
  have exposed: "distinct (map name ?r) \<longrightarrow>
      getStackBranches (\<lambda>p s. Inr ?r) rootCollation ''project'' ''S'' =
        Inr (map Some (Array_sort (\<lambda>a b. rootCollation (name a) (name b)) ?r))"
    and same: "\<forall>response'. tie_free rootCollation (map name ?r) \<and>
        distinct (map name ?r) \<and> mset response' = mset ?r \<longrightarrow>
        getStackBranches (\<lambda>p s. Inr response') rootCollation ''project'' ''S'' =
        getStackBranches (\<lambda>p s. Inr ?r) rootCollation ''project'' ''S''"
    by blast+
  from exposed d have "getStackBranches (\<lambda>p s. Inr ?r) rootCollation ''project'' ''S'' =
      Inr (map Some (Array_sort (\<lambda>a b. rootCollation (name a) (name b)) ?r))"
    by blast
  moreover from same free d m have
    "getStackBranches (\<lambda>p s. Inr ?r') rootCollation ''project'' ''S'' =
     getStackBranches (\<lambda>p s. Inr ?r) rootCollation ''project'' ''S''"
    by blast
  ultimately show ?thesis unfolding fn sorted by simp
qed

text \<open>
  The claim as it was stated fails twice. Fetched as \<^verbatim>\<open>B\<close>, \<^verbatim>\<open>a\<close>, the branches are exposed
  as \<^verbatim>\<open>a\<close>, \<^verbatim>\<open>B\<close>, which is not sorted in the lexicographic order of the code units. And the
  names \<^verbatim>\<open>ab\<close> and \<^verbatim>\<open>a\<close>, soft hyphen, \<^verbatim>\<open>b\<close> are different and compare equal, so the two
  orders in which the two branches can be fetched are the two orders in which they are
  exposed.
\<close>

theorem branch_view_collation_counterexample:
  "getStackBranches (answering [\<lparr>name = ''B''\<rparr>, \<lparr>name = ''a''\<rparr>]) rootCollation
     ''project'' ''S'' = Inr [Some \<lparr>name = ''a''\<rparr>, Some \<lparr>name = ''B''\<rparr>] \<and>
   \<not> sorted_wrt (\<lambda>x y. compareCodeUnits (name x) (name y) \<le> 0)
       [\<lparr>name = ''a''\<rparr>, \<lparr>name = ''B''\<rparr>] \<and>
   distinct (map name [\<lparr>name = ''ab''\<rparr>, \<lparr>name = [CHR ''a'', CHR 0xAD, CHR ''b'']\<rparr>]) \<and>
   mset [\<lparr>name = [CHR ''a'', CHR 0xAD, CHR ''b'']\<rparr>, \<lparr>name = ''ab''\<rparr>] =
     mset [\<lparr>name = ''ab''\<rparr>, \<lparr>name = [CHR ''a'', CHR 0xAD, CHR ''b'']\<rparr>] \<and>
   getStackBranches
     (answering [\<lparr>name = ''ab''\<rparr>, \<lparr>name = [CHR ''a'', CHR 0xAD, CHR ''b'']\<rparr>])
     rootCollation ''project'' ''S'' =
     Inr [Some \<lparr>name = ''ab''\<rparr>, Some \<lparr>name = [CHR ''a'', CHR 0xAD, CHR ''b'']\<rparr>] \<and>
   getStackBranches
     (answering [\<lparr>name = [CHR ''a'', CHR 0xAD, CHR ''b'']\<rparr>, \<lparr>name = ''ab''\<rparr>])
     rootCollation ''project'' ''S'' =
     Inr [Some \<lparr>name = [CHR ''a'', CHR 0xAD, CHR ''b'']\<rparr>, Some \<lparr>name = ''ab''\<rparr>]"
proof -
  note keys = rootCollation_def primaryKey_def caseKey_def toLowerCase_def isUpperCase_def
    ignorable_def
  note run = getStackBranches_def answering_def selectAll_def transformResponse_def
    addMany_def getInitialState_def branchAdapter_def Array_sort_def List.map_filter_simps
  have "getStackBranches (answering [\<lparr>name = ''B''\<rparr>, \<lparr>name = ''a''\<rparr>]) rootCollation
     ''project'' ''S'' = Inr [Some \<lparr>name = ''a''\<rparr>, Some \<lparr>name = ''B''\<rparr>]"
    by (simp add: run keys)
  moreover have "\<not> sorted_wrt (\<lambda>x y. compareCodeUnits (name x) (name y) \<le> 0)
       [\<lparr>name = ''a''\<rparr>, \<lparr>name = ''B''\<rparr>]"
    by simp
  moreover have
    "distinct (map name [\<lparr>name = ''ab''\<rparr>, \<lparr>name = [CHR ''a'', CHR 0xAD, CHR ''b'']\<rparr>])"
    by simp
  moreover have "mset [\<lparr>name = [CHR ''a'', CHR 0xAD, CHR ''b'']\<rparr>, \<lparr>name = ''ab''\<rparr>] =
     mset [\<lparr>name = ''ab''\<rparr>, \<lparr>name = [CHR ''a'', CHR 0xAD, CHR ''b'']\<rparr>]"
    by simp
  moreover have "getStackBranches
     (answering [\<lparr>name = ''ab''\<rparr>, \<lparr>name = [CHR ''a'', CHR 0xAD, CHR ''b'']\<rparr>])
     rootCollation ''project'' ''S'' =
     Inr [Some \<lparr>name = ''ab''\<rparr>, Some \<lparr>name = [CHR ''a'', CHR 0xAD, CHR ''b'']\<rparr>]"
    by (simp add: run keys)
  moreover have "getStackBranches
     (answering [\<lparr>name = [CHR ''a'', CHR 0xAD, CHR ''b'']\<rparr>, \<lparr>name = ''ab''\<rparr>])
     rootCollation ''project'' ''S'' =
     Inr [Some \<lparr>name = [CHR ''a'', CHR 0xAD, CHR ''b'']\<rparr>, Some \<lparr>name = ''ab''\<rparr>]"
    by (simp add: run keys)
  ultimately show ?thesis by (intro conjI)
qed

subsection \<open>Reading by index\<close>

lemma selectAll_present:
  "\<exists>view. selectAll (transformResponse lc response) = map Some view \<and>
          length view = length response \<and> set view \<subseteq> set response"
proof -
  let ?st = "transformResponse lc response"
  let ?sorted = "Array_sort (\<lambda>a b. lc (name a) (name b)) response"
  define view where "view = map (\<lambda>b. the (entities ?st (name b))) ?sorted"
  have stored: "entities ?st (name b) = Some (the (entities ?st (name b))) \<and>
                the (entities ?st (name b)) \<in> set response"
    if "b \<in> set ?sorted" for b
  proof -
    from that have "b \<in> set response" by (simp add: set_Array_sort)
    from transformResponse_keyed [OF this, of lc] show ?thesis by auto
  qed
  have "selectAll ?st = map Some view"
    using stored by (simp add: selectAll_def transformResponse_ids view_def)
  moreover have "length view = length response"
    by (simp add: view_def length_Array_sort)
  moreover have "set view \<subseteq> set response"
    using stored by (auto simp: view_def)
  ultimately show ?thesis by blast
qed

lemma Array_at_present:
  "Array_at (map Some view) index =
     (if 0 \<le> index \<and> index < int (length view) then Some (Some (view ! nat index))
      else if - int (length view) \<le> index \<and> index < 0
      then Some (Some (view ! nat (int (length view) + index)))
      else None)"
proof -
  have "map Some view ! nat k = Some (view ! nat k)" if "0 \<le> k" "k < int (length view)" for k
    using that by (simp add: nat_less_iff)
  then show ?thesis by (auto simp: Array_at_def Let_def)
qed

text \<open>
  C10, as the code has it. \<^verbatim>\<open>getBranchByIndex\<close> never throws: a failed fetch is the
  query's error. On a fetched list of \<open>n\<close> branches it reads the view that
  \<^verbatim>\<open>getStackBranches\<close> exposes, which has \<open>n\<close> branches and, for distinct names, is the
  list sorted by name. It returns the branch at position \<open>index\<close> of the view when
  \<open>0 \<le> index < n\<close>, the branch at position \<open>n + index\<close> when \<open>- n \<le> index < 0\<close>
  (\<^verbatim>\<open>Array.prototype.at\<close> counts a negative index from the end), and \<^verbatim>\<open>undefined\<close> for
  every other index.
\<close>

theorem getBranchByIndex_by_position:
  "(\<forall>e. stack_branches projectId stackId = Inl e \<longrightarrow>
        getBranchByIndex stack_branches localeCompare projectId stackId index = Inl e) \<and>
   (\<forall>response. stack_branches projectId stackId = Inr response \<longrightarrow>
      (\<exists>view.
         getStackBranches stack_branches localeCompare projectId stackId = Inr (map Some view) \<and>
         length view = length response \<and>
         (distinct (map name response) \<longrightarrow>
            view = Array_sort (\<lambda>a b. localeCompare (name a) (name b)) response) \<and>
         getBranchByIndex stack_branches localeCompare projectId stackId index =
           Inr (let n = int (length response)
                in if 0 \<le> index \<and> index < n then Some (view ! nat index)
                   else if - n \<le> index \<and> index < 0 then Some (view ! nat (n + index))
                   else None)))"
proof (intro conjI allI impI)
  fix e
  assume "stack_branches projectId stackId = Inl e"
  then show "getBranchByIndex stack_branches localeCompare projectId stackId index = Inl e"
    by (simp add: getBranchByIndex_def)
next
  fix response
  assume fetched: "stack_branches projectId stackId = Inr response"
  from selectAll_present [of localeCompare response] obtain view where
    view: "selectAll (transformResponse localeCompare response) = map Some view"
    and len: "length view = length response"
    by blast
  have exposed: "getStackBranches stack_branches localeCompare projectId stackId =
      Inr (map Some view)"
    using fetched view by (simp add: getStackBranches_def)
  have sorted: "view = Array_sort (\<lambda>a b. localeCompare (name a) (name b)) response"
    if "distinct (map name response)"
  proof -
    from that have "map Some view =
        map Some (Array_sort (\<lambda>a b. localeCompare (name a) (name b)) response)"
      using view by (simp add: selectAll_distinct)
    then show ?thesis by (simp add: inj_map_eq_map)
  qed
  have read: "getBranchByIndex stack_branches localeCompare projectId stackId index =
      Inr (let n = int (length response)
           in if 0 \<le> index \<and> index < n then Some (view ! nat index)
              else if - n \<le> index \<and> index < 0 then Some (view ! nat (n + index))
              else None)"
    using fetched len
    by (simp add: getBranchByIndex_def view Array_at_present Let_def)
  from exposed len sorted read
  show "\<exists>view.
         getStackBranches stack_branches localeCompare projectId stackId = Inr (map Some view) \<and>
         length view = length response \<and>
         (distinct (map name response) \<longrightarrow>
            view = Array_sort (\<lambda>a b. localeCompare (name a) (name b)) response) \<and>
         getBranchByIndex stack_branches localeCompare projectId stackId index =
           Inr (let n = int (length response)
                in if 0 \<le> index \<and> index < n then Some (view ! nat index)
                   else if - n \<le> index \<and> index < 0 then Some (view ! nat (n + index))
                   else None)"
    by blast
qed

theorem getBranchByIndex_by_position_witness:
  "getBranchByIndex (answering [\<lparr>name = ''feature-2''\<rparr>, \<lparr>name = ''feature-1''\<rparr>])
     compareCodeUnits ''project'' ''B'' 0 = Inr (Some \<lparr>name = ''feature-1''\<rparr>) \<and>
   getBranchByIndex (answering [\<lparr>name = ''feature-2''\<rparr>, \<lparr>name = ''feature-1''\<rparr>])
     compareCodeUnits ''project'' ''B'' 2 = Inr None \<and>
   getBranchByIndex (answering [\<lparr>name = ''feature-2''\<rparr>, \<lparr>name = ''feature-1''\<rparr>])
     compareCodeUnits ''project'' ''B'' (- 2) = Inr (Some \<lparr>name = ''feature-1''\<rparr>) \<and>
   getBranchByIndex (answering [\<lparr>name = ''feature-2''\<rparr>, \<lparr>name = ''feature-1''\<rparr>])
     compareCodeUnits ''project'' ''B'' (- 3) = Inr None"
proof -
  let ?r = "[\<lparr>name = ''feature-2''\<rparr>, \<lparr>name = ''feature-1''\<rparr>]"
  have sorted: "Array_sort (\<lambda>a b. compareCodeUnits (name a) (name b)) ?r =
      [\<lparr>name = ''feature-1''\<rparr>, \<lparr>name = ''feature-2''\<rparr>]"
    by (simp add: Array_sort_def)
  have ans: "answering ?r ''project'' ''B'' = Inr ?r" by (simp add: answering_def)
  have d: "distinct (map name ?r)" by simp
  have at: "getBranchByIndex (answering ?r) compareCodeUnits ''project'' ''B'' index =
      Inr (if 0 \<le> index \<and> index < 2
           then Some ([\<lparr>name = ''feature-1''\<rparr>, \<lparr>name = ''feature-2''\<rparr>] ! nat index)
           else if - 2 \<le> index \<and> index < 0
           then Some ([\<lparr>name = ''feature-1''\<rparr>, \<lparr>name = ''feature-2''\<rparr>] ! nat (2 + index))
           else None)" for index
    using getBranchByIndex_by_position
      [of "answering ?r" "''project''" "''B''" compareCodeUnits index] ans d sorted
    by (auto simp: Let_def)
  show ?thesis by (simp add: at)
qed

text \<open>
  The index \<open>- 1\<close> is outside the positions \<open>0 \<le> index < 1\<close> of a list of one branch,
  and \<^verbatim>\<open>getBranchByIndex\<close> returns that branch for it, not \<^verbatim>\<open>undefined\<close>.
\<close>

theorem getBranchByIndex_negative_index_counterexample:
  "getBranchByIndex (answering [\<lparr>name = ''main''\<rparr>]) compareCodeUnits ''project'' ''A'' (- 1) =
     Inr (Some \<lparr>name = ''main''\<rparr>) \<and>
   \<not> (0 \<le> (- 1 :: int) \<and> (- 1 :: int) < int (length [\<lparr>name = ''main''\<rparr>]))"
  by (simp add: getBranchByIndex_def answering_def Array_at_def selectAll_def
      transformResponse_def addMany_def getInitialState_def branchAdapter_def Array_sort_def
      List.map_filter_simps)

subsection \<open>Invalidation\<close>

lemma invalidate_CreateCommit:
  "invalidate (invalidatesTags CreateCommit) e =
     (if status e = Fresh \<and>
         (StackBranches \<in> set (providesTags (endpoint e)) \<or>
          Commit \<in> set (providesTags (endpoint e)))
      then e\<lparr>status := Stale\<rparr> else e)"
  by (auto simp: invalidate_def overlapping_def)

text \<open>
  C1, as the code has it. When the mutation \<^verbatim>\<open>createCommit\<close> has succeeded, the entries
  that go from Fresh to Stale are exactly the fresh entries whose endpoint provides the tag
  \<^verbatim>\<open>StackBranches\<close> or the tag \<^verbatim>\<open>Commit\<close>, which among the endpoints of this service are
  the reads of \<^verbatim>\<open>getStackBranches\<close>; every other entry is unchanged. An entry tagged
  \<^verbatim>\<open>Stacks\<close> only (a read of \<^verbatim>\<open>getStacks\<close>) or \<^verbatim>\<open>CommitChanges\<close> only (a read of
  \<^verbatim>\<open>getCommitChanges\<close>) stays as it is.
\<close>

theorem createCommit_invalidation:
  "mutationFulfilled CreateCommit cache =
     map (\<lambda>e. if status e = Fresh \<and>
                  (StackBranches \<in> set (providesTags (endpoint e)) \<or>
                   Commit \<in> set (providesTags (endpoint e)))
               then e\<lparr>status := Stale\<rparr> else e) cache \<and>
   (\<forall>i < length cache.
      (status (mutationFulfilled CreateCommit cache ! i) = Stale \<and> status (cache ! i) = Fresh) =
        (status (cache ! i) = Fresh \<and> endpoint (cache ! i) = GetStackBranches)) \<and>
   (\<forall>e \<in> set cache.
      providesTags (endpoint e) = [Stacks] \<or> providesTags (endpoint e) = [CommitChanges] \<longrightarrow>
      invalidate (invalidatesTags CreateCommit) e = e)"
proof (intro conjI allI impI ballI)
  show "mutationFulfilled CreateCommit cache =
     map (\<lambda>e. if status e = Fresh \<and>
                  (StackBranches \<in> set (providesTags (endpoint e)) \<or>
                   Commit \<in> set (providesTags (endpoint e)))
               then e\<lparr>status := Stale\<rparr> else e) cache"
    unfolding mutationFulfilled_def invalidate_CreateCommit ..
next
  fix i
  assume "i < length cache"
  then show "(status (mutationFulfilled CreateCommit cache ! i) = Stale \<and> status (cache ! i) = Fresh) =
        (status (cache ! i) = Fresh \<and> endpoint (cache ! i) = GetStackBranches)"
    by (cases "endpoint (cache ! i)")
       (auto simp: mutationFulfilled_def invalidate_def overlapping_def)
next
  fix e
  assume "e \<in> set cache"
    and "providesTags (endpoint e) = [Stacks] \<or> providesTags (endpoint e) = [CommitChanges]"
  then show "invalidate (invalidatesTags CreateCommit) e = e"
    by (auto simp: invalidate_def overlapping_def)
qed

theorem createCommit_invalidation_witness:
  "map status (mutationFulfilled CreateCommit example_cache) = [Fresh, Stale, Fresh]"
  using createCommit_invalidation [of example_cache]
  by (simp add: example_cache_def)

text \<open>
  The third entry of the example cache is a fresh read of \<^verbatim>\<open>getCommitChanges\<close>, tagged
  \<^verbatim>\<open>CommitChanges\<close>; after \<^verbatim>\<open>createCommit\<close> has succeeded it is still Fresh.
\<close>

theorem createCommit_keeps_CommitChanges_counterexample:
  "providesTags (endpoint (example_cache ! 2)) = [CommitChanges] \<and>
   status (example_cache ! 2) = Fresh \<and>
   status (mutationFulfilled CreateCommit example_cache ! 2) = Fresh"
  by (simp add: example_cache_def mutationFulfilled_def invalidate_def overlapping_def)

end
